theory Spec2Isabelle
  imports Main "HOL-Library.Word"
begin

unbundle bit_operations_syntax

section \<open>The file walker of \<open>files.go\<close>\<close>

text \<open>
  \<open>files.go\<close> walks a directory tree and sends the path of every entry that is
  not a directory and not ignored to a channel. The source holds two revisions of the
  program. Both share \<open>ignoreMatchers.Match\<close>, \<open>fileInfo.isSymlink\<close>, \<open>main\<close> and
  the body of \<open>walk\<close>; they differ in the closure that \<open>filesAsync\<close> hands to
  \<open>walk\<close> (here \<open>walkFn_bounded\<close> and \<open>walkFn_unbounded\<close>) and in how \<open>walk\<close>
  starts the traversal of a child (behind a semaphore with a synchronous fallback, or
  always in a goroutine of its own).
\<close>

subsection \<open>Errors, file information, the directory tree\<close>

text \<open>
  The three kinds of error value the program handles: \<open>filepath.SkipDir\<close>, the
  program's own \<open>maxError\<close> ("Overflow max count"), and whatever the operating system
  reports when a directory cannot be read.
\<close>

datatype error = SkipDir | maxError | OSError string

text \<open>
  \<open>fileInfo\<close> wraps \<open>os.FileInfo\<close>. The program reads its name, \<open>IsDir()\<close> and the
  mode bits. \<open>os.FileMode\<close> is a 32-bit set; \<open>ModeDir\<close> is bit 31 and
  \<open>ModeSymlink\<close> bit 27, and \<open>IsDir()\<close> tests \<open>ModeDir\<close>.
\<close>

record fileInfo =
  Name :: string
  Mode :: "32 word"

definition ModeDir :: "32 word" where
  "ModeDir = push_bit 31 1"

definition ModeSymlink :: "32 word" where
  "ModeSymlink = push_bit 27 1"

definition IsDir :: "fileInfo \<Rightarrow> bool" where
  "IsDir f = (Mode f AND ModeDir \<noteq> 0)"

definition isSymlink :: "fileInfo \<Rightarrow> bool" where
  "isSymlink f = (Mode f AND ModeSymlink = ModeSymlink)"

text \<open>
  The file system below the root, as \<open>ioutil.ReadDir\<close> shows it: every entry carries
  its \<open>fileInfo\<close> and the two results \<open>ReadDir\<close> would give for its path, the entries
  (in the order returned) and the error. An entry that is a symbolic link to a
  directory carries what reading through the link would list.
\<close>

datatype node = Node (node_info: fileInfo) (node_files: "node list") (node_err: "error option")

subsection \<open>Ignore matchers\<close>

text \<open>
  A \<open>gitignore.IgnoreMatcher\<close> is an interface value: \<open>None\<close> is the nil interface,
  \<open>Some m\<close> a matcher whose \<open>Match(path, isDir)\<close> is \<open>m\<close>.
\<close>

type_synonym IgnoreMatcher = "(string \<Rightarrow> bool \<Rightarrow> bool) option"

type_synonym ignoreMatchers = "IgnoreMatcher list"

fun Match :: "ignoreMatchers \<Rightarrow> string \<Rightarrow> bool \<Rightarrow> bool" where
  "Match [] path isDir = False"
| "Match (ig # im) path isDir =
     (case ig of
        None \<Rightarrow> False
      | Some m \<Rightarrow> if m path isDir then True else Match im path isDir)"

text \<open>
  The contract of the specification, in its words: true iff any contained matcher
  reports a match.
\<close>

definition spec_matches :: "ignoreMatchers \<Rightarrow> string \<Rightarrow> bool \<Rightarrow> bool" where
  "spec_matches im path isDir =
     list_ex (\<lambda>ig. case ig of None \<Rightarrow> False | Some m \<Rightarrow> m path isDir) im"

subsection \<open>Paths\<close>

text \<open>
  \<open>filepath.Join\<close> and \<open>filepath.ToSlash\<close> of the Go library, for the separator
  \<open>/\<close>. \<open>Join\<close> drops leading empty elements, joins the rest with the separator and
  cleans the result: empty and \<open>.\<close> components disappear, \<open>..\<close> removes the
  component before it (at the root it disappears, at the start of a relative path it
  stays), and the empty relative path is \<open>.\<close>.
\<close>

fun split_path :: "string \<Rightarrow> string list" where
  "split_path [] = [[]]"
| "split_path (c # cs) =
     (if c = CHR ''/'' then [] # split_path cs
      else (case split_path cs of [] \<Rightarrow> [[c]] | x # xs \<Rightarrow> (c # x) # xs))"

fun clean_elems :: "bool \<Rightarrow> string list \<Rightarrow> string list \<Rightarrow> string list" where
  "clean_elems rooted out [] = rev out"
| "clean_elems rooted out (e # es) =
     (if e = [] \<or> e = ''.'' then clean_elems rooted out es
      else if e = ''..'' then
        (case out of
           [] \<Rightarrow> if rooted then clean_elems rooted out es else clean_elems rooted (e # out) es
         | x # xs \<Rightarrow>
             if x = ''..'' then clean_elems rooted (e # out) es else clean_elems rooted xs es)
      else clean_elems rooted (e # out) es)"

fun join_sep :: "string list \<Rightarrow> string" where
  "join_sep [] = []"
| "join_sep [e] = e"
| "join_sep (e # es) = e @ ''/'' @ join_sep es"

definition Clean :: "string \<Rightarrow> string" where
  "Clean path =
     (case path of
        [] \<Rightarrow> ''.''
      | c # cs \<Rightarrow>
          (let rooted = (c = CHR ''/'');
               body = join_sep (clean_elems rooted [] (split_path path))
           in if rooted then CHR ''/'' # body
              else if body = [] then ''.'' else body))"

definition Join :: "string \<Rightarrow> string \<Rightarrow> string" where
  "Join dir name =
     (if dir \<noteq> [] then Clean (dir @ ''/'' @ name)
      else if name \<noteq> [] then Clean name
      else [])"

definition ToSlash :: "string \<Rightarrow> string" where
  "ToSlash path = path"

definition gitignoreFile :: string where
  "gitignoreFile = ''.gitignore''"

subsection \<open>Configuration and state of a walk\<close>

text \<open>
  What the closure built in \<open>filesAsync\<close> reads: the compiled \<open>-i\<close> pattern
  (\<open>ignorere.MatchString\<close>, on bare names), the \<open>-g\<close> flag, \<open>maxcount\<close>, and
  \<open>gitignore.NewGitIgnore\<close>, which maps the path of a rule file to a matcher or to an
  error when the file cannot be opened. The regular expression and the rule files are
  compiled by libraries outside the program, so both are taken as they answer. The \<open>-p\<close> progress message goes to the standard
  error stream and changes nothing else; it is left out.
\<close>

record world =
  ignorere :: "string \<Rightarrow> bool"
  careGitignore :: bool
  maxcount :: "64 word"
  NewGitIgnore :: "string \<Rightarrow> error + IgnoreMatcher"

text \<open>
  \<open>main\<close>: \<open>maxcount\<close> starts as the largest \<open>int64\<close> and is replaced by the \<open>-M\<close>
  flag when that is positive.
\<close>

definition maxcount_default :: "64 word" where
  "maxcount_default = drop_bit 1 (NOT 0)"

definition main_maxcount :: "64 word \<Rightarrow> 64 word" where
  "main_maxcount maxfiles = (if 0 <s maxfiles then maxfiles else maxcount_default)"

text \<open>
  What a walk changes: the counter \<open>n\<close> (an \<open>int64\<close>), the channel \<open>q\<close> (here the
  list of all paths sent so far, oldest first), and a log of the calls a traversal
  makes: \<open>Visit p\<close> when \<open>walk\<close> hands the entry at \<open>p\<close> to \<open>walkFn\<close>, \<open>ReadDir p\<close>
  when it lists \<open>p\<close>.
\<close>

datatype event = Visit string | ReadDir string

record walk_state =
  st_n :: "64 word"
  st_q :: "string list"
  st_log :: "event list"

definition record_event :: "event \<Rightarrow> walk_state \<Rightarrow> walk_state" where
  "record_event e st = st\<lparr>st_log := st_log st @ [e]\<rparr>"

definition start_state :: walk_state where
  "start_state = \<lparr>st_n = 0, st_q = [], st_log = []\<rparr>"

type_synonym walkFunc =
  "string \<Rightarrow> fileInfo \<Rightarrow> ignoreMatchers \<Rightarrow> walk_state \<Rightarrow> (ignoreMatchers \<times> error option) \<times> walk_state"

subsection \<open>The closure of \<open>filesAsync\<close>\<close>

text \<open>
  First revision (the one whose \<open>walk\<close> has the semaphore): the rule file of a real
  directory is appended to the inherited matchers; then the exclusion test; then, for
  an entry that is not a directory, the counter, the overflow check and the send.
\<close>

definition walkFn_bounded :: "world \<Rightarrow> walkFunc" where
  "walkFn_bounded W path fi matchers st =
     (let matchers =
            (if careGitignore W \<and> IsDir fi \<and> \<not> isSymlink fi then
               (case NewGitIgnore W (Join path gitignoreFile) of
                  Inr matcher \<Rightarrow> matchers @ [matcher]
                | Inl err \<Rightarrow> matchers)
             else matchers)
      in if ignorere W (Name fi) \<or> careGitignore W \<and> Match matchers path (IsDir fi) then
           ((matchers, if IsDir fi then Some SkipDir else None), st)
         else if \<not> IsDir fi then
           (let st1 = st\<lparr>st_n := st_n st + 1\<rparr>
            in if maxcount W <s st_n st1 then ((matchers, Some maxError), st1)
               else ((matchers, None), st1\<lparr>st_q := st_q st1 @ [ToSlash path]\<rparr>))
         else ((matchers, None), st))"

text \<open>
  Second revision: \<open>newMatchers\<close> starts as the nil slice; it becomes a copy of the
  inherited matchers with the new one at the end, or the inherited matchers when the
  rule file cannot be read. The \<open>else\<close> branch of the outer test is empty, so for an
  entry that is not a real directory (or without \<open>-g\<close>) \<open>newMatchers\<close> stays nil.
\<close>

definition walkFn_unbounded :: "world \<Rightarrow> walkFunc" where
  "walkFn_unbounded W path fi matchers st =
     (let newMatchers =
            (if careGitignore W \<and> IsDir fi \<and> \<not> isSymlink fi then
               (case NewGitIgnore W (Join path gitignoreFile) of
                  Inr matcher \<Rightarrow> (matchers @ [None])[length matchers := matcher]
                | Inl err \<Rightarrow> matchers)
             else [])
      in if ignorere W (Name fi) \<or> careGitignore W \<and> Match newMatchers path (IsDir fi) then
           ((newMatchers, if IsDir fi then Some SkipDir else None), st)
         else if \<not> IsDir fi then
           (let st1 = st\<lparr>st_n := st_n st + 1\<rparr>
            in if maxcount W <s st_n st1 then ((newMatchers, Some maxError), st1)
               else ((newMatchers, None), st1\<lparr>st_q := st_q st1 @ [ToSlash path]\<rparr>))
         else ((newMatchers, None), st))"

subsection \<open>\<open>walk\<close>\<close>

text \<open>
  \<open>walk\<close> under the schedule in which the traversal of a child runs to completion
  before the next child starts. In the first revision this is the synchronous branch
  of the loop (\<open>default:\<close>, taken when the semaphore is full); it is also one of the
  schedules of the goroutines both revisions start, the one in which every goroutine
  finishes before its parent goes on. \<open>walk_files\<close> is the loop over the listing,
  carrying \<open>ferr\<close>. The closure is an argument, as in the source.
\<close>

fun walk :: "walkFunc \<Rightarrow> string \<Rightarrow> node \<Rightarrow> ignoreMatchers \<Rightarrow> walk_state \<Rightarrow> error option \<times> walk_state"
and walk_files :: "walkFunc \<Rightarrow> string \<Rightarrow> node list \<Rightarrow> ignoreMatchers \<Rightarrow> error option \<Rightarrow> walk_state \<Rightarrow> error option \<times> walk_state"
where
  "walk walkFn path (Node info files rerr) parentIgnores st =
     (case walkFn path info parentIgnores (record_event (Visit path) st) of
        ((ignores, walkError), st1) \<Rightarrow>
          (case walkError of
             Some e \<Rightarrow> if IsDir info \<and> e = SkipDir then (None, st1) else (Some e, st1)
           | None \<Rightarrow>
               if isSymlink info \<or> \<not> IsDir info then (None, st1)
               else (case rerr of
                       Some err \<Rightarrow> (Some err, record_event (ReadDir path) st1)
                     | None \<Rightarrow>
                         walk_files walkFn path files ignores None
                           (record_event (ReadDir path) st1))))"
| "walk_files walkFn path [] ignores ferr st = (ferr, st)"
| "walk_files walkFn path (file # rest) ignores ferr st =
     (case walk walkFn (Join path (Name (node_info file))) file ignores st of
        (err, st1) \<Rightarrow>
          walk_files walkFn path rest ignores
            (case err of None \<Rightarrow> ferr | Some e \<Rightarrow> Some e) st1)"

subsection \<open>Concrete rule files and patterns\<close>

text \<open>
  The matcher that stands for a rule file holding the single rule \<open>*.log\<close>: a path
  matches when its last component ends in \<open>.log\<close>, directory or not. The default of the
  \<open>-i\<close> flag, \<open>^(\.git|\.hg|\.svn|_darcs|\.bzr)$\<close>, matches exactly five names.
\<close>

definition star_log :: "string \<Rightarrow> bool \<Rightarrow> bool" where
  "star_log path isDir = (take 4 (rev path) = rev ''.log'')"

definition default_ignore :: "string \<Rightarrow> bool" where
  "default_ignore name = (name \<in> set [''.git'', ''.hg'', ''.svn'', ''_darcs'', ''.bzr''])"

definition always_match :: "string \<Rightarrow> bool \<Rightarrow> bool" where
  "always_match path isDir = True"

text \<open>
  File information as \<open>Lstat\<close> reports it for a directory (mode \<open>drwxr-xr-x\<close>), a
  regular file (\<open>-rw-r--r--\<close>) and a symbolic link (\<open>Lrwxrwxrwx\<close>).
\<close>

definition dir_info :: "string \<Rightarrow> fileInfo" where
  "dir_info name = \<lparr>Name = name, Mode = ModeDir OR 0x1ED\<rparr>"

definition file_info :: "string \<Rightarrow> fileInfo" where
  "file_info name = \<lparr>Name = name, Mode = 0x1A4\<rparr>"

definition symlink_info :: "string \<Rightarrow> fileInfo" where
  "symlink_info name = \<lparr>Name = name, Mode = ModeSymlink OR 0x1FF\<rparr>"

text \<open>
  The program run without flags: the default pattern, no rule files, no maximum. And
  the program run with \<open>-g\<close> where the only rule file is \<open>sub/.gitignore\<close>, holding
  \<open>*.log\<close>.
\<close>

definition no_rule_files :: "string \<Rightarrow> error + IgnoreMatcher" where
  "no_rule_files p = Inl (OSError ''no such file or directory'')"

definition default_world :: world where
  "default_world =
     \<lparr>ignorere = default_ignore, careGitignore = False,
      maxcount = main_maxcount (- 1), NewGitIgnore = no_rule_files\<rparr>"

definition sub_rule_file :: "string \<Rightarrow> error + IgnoreMatcher" where
  "sub_rule_file p = (if p = ''sub/.gitignore'' then Inr (Some star_log) else no_rule_files p)"

definition gitignore_world :: world where
  "gitignore_world =
     \<lparr>ignorere = default_ignore, careGitignore = True,
      maxcount = main_maxcount (- 1), NewGitIgnore = sub_rule_file\<rparr>"

subsection \<open>The traversals of the children of one directory\<close>




text \<open>
  The outcome of the closure that the specification calls excluded (prune for a
  directory, skip otherwise): nothing is counted or sent, and a directory is answered
  with \<open>SkipDir\<close>.
\<close>

definition excluded_outcome ::
  "fileInfo \<Rightarrow> walk_state \<Rightarrow> (ignoreMatchers \<times> error option) \<times> walk_state \<Rightarrow> bool" where
  "excluded_outcome fi st r =
     (snd r = st \<and> snd (fst r) = (if IsDir fi then Some SkipDir else None))"

text \<open>
  The tree of the scenario: the root holds \<open>sub\<close>, which holds \<open>.gitignore\<close>,
  \<open>x.log\<close> and \<open>y.txt\<close> (\<open>ReadDir\<close> sorts by name). And a directory whose two
  subdirectories both fail to list, with different errors.
\<close>

definition scenario_sub :: node where
  "scenario_sub =
     Node (dir_info ''sub'')
       [Node (file_info ''.gitignore'') [] None,
        Node (file_info ''x.log'') [] None,
        Node (file_info ''y.txt'') [] None] None"

definition scenario_root :: node where
  "scenario_root = Node (dir_info ''.'') [scenario_sub] None"


text \<open>
  The matchers the first revision's closure returns for an entry: the inherited ones,
  extended by the rule file of the entry when \<open>-g\<close> is set, the entry is a real
  directory and the file can be read.
\<close>

definition extend_context :: "world \<Rightarrow> string \<Rightarrow> fileInfo \<Rightarrow> ignoreMatchers \<Rightarrow> ignoreMatchers" where
  "extend_context W path fi S =
     (if careGitignore W \<and> IsDir fi \<and> \<not> isSymlink fi then
        (case NewGitIgnore W (Join path gitignoreFile) of
           Inr matcher \<Rightarrow> S @ [matcher]
         | Inl err \<Rightarrow> S)
      else S)"

subsection \<open>Concurrent emits\<close>

text \<open>
  The part of the closure that runs for an entry that is not a directory and not
  excluded, as one goroutine among several executes it. \<open>n\<close> and \<open>q\<close> are captured by
  the closure and shared; the source guards neither (its own comment: "This is pseudo
  handling because this is not atomic"). \<open>n++\<close> is a read of \<open>n\<close> followed by a
  write, the comparison reads \<open>n\<close> again, and the send is one channel operation.
  An emitter holds the program point of its goroutine, the value it read, and what
  the closure returned once it is done.
\<close>

datatype emit_pc = ReadN | WriteN | CompareN | SendQ | Returned

record emitter =
  em_path :: string
  em_pc :: emit_pc
  em_read :: "64 word"
  em_ret :: "error option"

record shared =
  sh_n :: "64 word"
  sh_q :: "string list"

definition new_emitter :: "string \<Rightarrow> emitter" where
  "new_emitter path = \<lparr>em_path = path, em_pc = ReadN, em_read = 0, em_ret = None\<rparr>"

fun emit_step :: "64 word \<Rightarrow> shared \<Rightarrow> emitter \<Rightarrow> shared \<times> emitter" where
  "emit_step maxc sh e =
     (case em_pc e of
        ReadN \<Rightarrow> (sh, e\<lparr>em_read := sh_n sh, em_pc := WriteN\<rparr>)
      | WriteN \<Rightarrow> (sh\<lparr>sh_n := em_read e + 1\<rparr>, e\<lparr>em_pc := CompareN\<rparr>)
      | CompareN \<Rightarrow>
          if maxc <s sh_n sh then (sh, e\<lparr>em_ret := Some maxError, em_pc := Returned\<rparr>)
          else (sh, e\<lparr>em_pc := SendQ\<rparr>)
      | SendQ \<Rightarrow> (sh\<lparr>sh_q := sh_q sh @ [ToSlash (em_path e)]\<rparr>, e\<lparr>em_pc := Returned\<rparr>)
      | Returned \<Rightarrow> (sh, e))"

text \<open>
  A schedule is the list of the goroutines that take the next step, by index.
\<close>

fun run_schedule :: "64 word \<Rightarrow> nat list \<Rightarrow> shared \<times> emitter list \<Rightarrow> shared \<times> emitter list" where
  "run_schedule maxc [] c = c"
| "run_schedule maxc (i # rest) (sh, es) =
     (if i < length es then
        (case emit_step maxc sh (es ! i) of
           (sh1, e1) \<Rightarrow> run_schedule maxc rest (sh1, es[i := e1]))
      else run_schedule maxc rest (sh, es))"

definition all_returned :: "shared \<times> emitter list \<Rightarrow> bool" where
  "all_returned c = list_all (\<lambda>e. em_pc e = Returned) (snd c)"

subsection \<open>Slices of matchers in memory\<close>

text \<open>
  An \<open>ignoreMatchers\<close> value is a Go slice: a backing array, a length and a
  capacity. The heap maps the address of an array to its cells. \<open>append\<close> writes into
  the backing array when the capacity allows and otherwise allocates a larger array
  and copies; how much larger is the runtime's choice (\<open>grow\<close>, from the old
  capacity), and \<open>doubling\<close> is what the Go runtime does below 256 elements.
  \<open>make\<close> allocates an array of nil entries and \<open>copy\<close> overwrites its front.
\<close>

record slice =
  sl_array :: nat
  sl_len :: nat
  sl_cap :: nat

record heap =
  hp_cells :: "nat \<Rightarrow> IgnoreMatcher list"
  hp_next :: nat

definition nil_slice :: slice where
  "nil_slice = \<lparr>sl_array = 0, sl_len = 0, sl_cap = 0\<rparr>"

definition empty_heap :: heap where
  "empty_heap = \<lparr>hp_cells = (\<lambda>a. []), hp_next = 1\<rparr>"

definition slice_elems :: "heap \<Rightarrow> slice \<Rightarrow> ignoreMatchers" where
  "slice_elems h s = take (sl_len s) (hp_cells h (sl_array s))"

definition doubling :: "nat \<Rightarrow> nat" where
  "doubling oldcap = (if oldcap = 0 then 1 else 2 * oldcap)"

definition go_append :: "(nat \<Rightarrow> nat) \<Rightarrow> heap \<Rightarrow> slice \<Rightarrow> IgnoreMatcher \<Rightarrow> heap \<times> slice" where
  "go_append grow h s x =
     (if sl_len s < sl_cap s then
        (h\<lparr>hp_cells := (hp_cells h)(sl_array s := (hp_cells h (sl_array s))[sl_len s := x])\<rparr>,
         s\<lparr>sl_len := sl_len s + 1\<rparr>)
      else
        (let c = grow (sl_cap s);
             a = hp_next h;
             cells = slice_elems h s @ [x] @ replicate (c - (sl_len s + 1)) None
         in (h\<lparr>hp_cells := (hp_cells h)(a := cells), hp_next := a + 1\<rparr>,
             \<lparr>sl_array = a, sl_len = sl_len s + 1, sl_cap = c\<rparr>)))"

definition go_make :: "heap \<Rightarrow> nat \<Rightarrow> heap \<times> slice" where
  "go_make h k =
     (h\<lparr>hp_cells := (hp_cells h)(hp_next h := replicate k None), hp_next := hp_next h + 1\<rparr>,
      \<lparr>sl_array = hp_next h, sl_len = k, sl_cap = k\<rparr>)"

definition go_copy :: "heap \<Rightarrow> slice \<Rightarrow> slice \<Rightarrow> heap" where
  "go_copy h dst src =
     (let k = min (sl_len dst) (sl_len src);
          old = hp_cells h (sl_array dst)
      in h\<lparr>hp_cells := (hp_cells h)(sl_array dst := take k (slice_elems h src) @ drop k old)\<rparr>)"

definition go_store :: "heap \<Rightarrow> slice \<Rightarrow> nat \<Rightarrow> IgnoreMatcher \<Rightarrow> heap" where
  "go_store h s i x =
     h\<lparr>hp_cells := (hp_cells h)(sl_array s := (hp_cells h (sl_array s))[i := x])\<rparr>"

text \<open>
  The first statement of the closure in both revisions, on slices: the first
  appends to the inherited slice, the second makes a slice one longer, copies the
  inherited matchers into it and stores the new matcher behind them.
\<close>

definition extend_bounded ::
  "(nat \<Rightarrow> nat) \<Rightarrow> world \<Rightarrow> string \<Rightarrow> fileInfo \<Rightarrow> heap \<Rightarrow> slice \<Rightarrow> heap \<times> slice" where
  "extend_bounded grow W path fi h matchers =
     (if careGitignore W \<and> IsDir fi \<and> \<not> isSymlink fi then
        (case NewGitIgnore W (Join path gitignoreFile) of
           Inr matcher \<Rightarrow> go_append grow h matchers matcher
         | Inl err \<Rightarrow> (h, matchers))
      else (h, matchers))"

definition extend_unbounded ::
  "world \<Rightarrow> string \<Rightarrow> fileInfo \<Rightarrow> heap \<Rightarrow> slice \<Rightarrow> heap \<times> slice" where
  "extend_unbounded W path fi h matchers =
     (if careGitignore W \<and> IsDir fi \<and> \<not> isSymlink fi then
        (case NewGitIgnore W (Join path gitignoreFile) of
           Inr matcher \<Rightarrow>
             (case go_make h (sl_len matchers + 1) of
                (h1, newMatchers) \<Rightarrow>
                  (go_store (go_copy h1 newMatchers matchers) newMatchers (sl_len matchers) matcher,
                   newMatchers))
         | Inl err \<Rightarrow> (h, matchers))
      else (h, nil_slice))"

text \<open>
  A tree with rule files in \<open>.\<close>, \<open>a\<close>, \<open>a/b\<close> (each holding \<open>*.bak\<close>) and in the two
  siblings \<open>a/b/c\<close> (\<open>*.log\<close>) and \<open>a/b/d\<close> (\<open>*.tmp\<close>). \<open>inherited_by_siblings\<close> is the
  slice that \<open>walk\<close> hands to both \<open>c\<close> and \<open>d\<close>; \<open>after_c\<close> is the heap and the slice
  of \<open>c\<close>'s children once the closure has run for \<open>c\<close>, \<open>after_d\<close> once it has then
  run for \<open>d\<close>. The closure runs for \<open>d\<close> while \<open>c\<close>'s subtree is still being walked
  whenever the two are walked by different goroutines.
\<close>

definition has_suffix :: "string \<Rightarrow> string \<Rightarrow> bool \<Rightarrow> bool" where
  "has_suffix suf path isDir = (take (length suf) (rev path) = rev suf)"

definition nested_rule_files :: "string \<Rightarrow> error + IgnoreMatcher" where
  "nested_rule_files p =
     (if p \<in> set [''.gitignore'', ''a/.gitignore'', ''a/b/.gitignore'']
        then Inr (Some (has_suffix ''.bak''))
      else if p = ''a/b/c/.gitignore'' then Inr (Some (has_suffix ''.log''))
      else if p = ''a/b/d/.gitignore'' then Inr (Some (has_suffix ''.tmp''))
      else no_rule_files p)"

definition nested_world :: world where
  "nested_world =
     \<lparr>ignorere = default_ignore, careGitignore = True,
      maxcount = main_maxcount (- 1), NewGitIgnore = nested_rule_files\<rparr>"

definition inherited_by_siblings :: "heap \<times> slice" where
  "inherited_by_siblings =
     (case extend_bounded doubling nested_world ''.'' (dir_info ''.'') empty_heap nil_slice of
        (h1, s1) \<Rightarrow>
          (case extend_bounded doubling nested_world ''a'' (dir_info ''a'') h1 s1 of
             (h2, s2) \<Rightarrow> extend_bounded doubling nested_world ''a/b'' (dir_info ''b'') h2 s2))"

definition after_c :: "heap \<times> slice" where
  "after_c =
     extend_bounded doubling nested_world ''a/b/c'' (dir_info ''c'')
       (fst inherited_by_siblings) (snd inherited_by_siblings)"

definition after_d :: "heap \<times> slice" where
  "after_d =
     extend_bounded doubling nested_world ''a/b/d'' (dir_info ''d'')
       (fst after_c) (snd inherited_by_siblings)"

definition inherited_by_siblings_copy :: "heap \<times> slice" where
  "inherited_by_siblings_copy =
     (case extend_unbounded nested_world ''.'' (dir_info ''.'') empty_heap nil_slice of
        (h1, s1) \<Rightarrow>
          (case extend_unbounded nested_world ''a'' (dir_info ''a'') h1 s1 of
             (h2, s2) \<Rightarrow> extend_unbounded nested_world ''a/b'' (dir_info ''b'') h2 s2))"

definition after_c_copy :: "heap \<times> slice" where
  "after_c_copy =
     extend_unbounded nested_world ''a/b/c'' (dir_info ''c'')
       (fst inherited_by_siblings_copy) (snd inherited_by_siblings_copy)"

definition after_d_copy :: "heap \<times> slice" where
  "after_d_copy =
     extend_unbounded nested_world ''a/b/d'' (dir_info ''d'')
       (fst after_c_copy) (snd inherited_by_siblings_copy)"

text \<open>
  A slice of the heap: its array is allocated, has as many cells as the capacity
  says, and the length is within the capacity.
\<close>

definition valid_slice :: "heap \<Rightarrow> slice \<Rightarrow> bool" where
  "valid_slice h s =
     (sl_array s < hp_next h \<and> length (hp_cells h (sl_array s)) = sl_cap s \<and> sl_len s \<le> sl_cap s)"

subsection \<open>The files a walk is to emit\<close>

text \<open>
  The matching files below an entry, in the order of the traversal: the entries that
  are not directories and not excluded, reached from the entry through directories
  that are not excluded, are not symbolic links and can be listed. The context of an
  entry is the inherited one extended by its own rule file, as in the first revision.
  \<open>listable\<close> says that no directory of a tree fails to list.
\<close>

fun matching :: "world \<Rightarrow> string \<Rightarrow> node \<Rightarrow> ignoreMatchers \<Rightarrow> string list"
and matching_files :: "world \<Rightarrow> string \<Rightarrow> node list \<Rightarrow> ignoreMatchers \<Rightarrow> string list"
where
  "matching W path (Node info files rerr) S =
     (if ignorere W (Name info) \<or>
         careGitignore W \<and> Match (extend_context W path info S) path (IsDir info) then []
      else if \<not> IsDir info then [ToSlash path]
      else if isSymlink info \<or> rerr \<noteq> None then []
      else matching_files W path files (extend_context W path info S))"
| "matching_files W path [] S = []"
| "matching_files W path (f # rest) S =
     matching W (Join path (Name (node_info f))) f S @ matching_files W path rest S"

fun listable :: "node \<Rightarrow> bool"
and listable_files :: "node list \<Rightarrow> bool"
where
  "listable (Node info files rerr) = (rerr = None \<and> listable_files files)"
| "listable_files [] = True"
| "listable_files (f # rest) = (listable f \<and> listable_files rest)"

text \<open>
  Three files in one directory; and two files followed by a directory that cannot be
  listed.
\<close>

definition three_files :: node where
  "three_files =
     Node (dir_info ''.'')
       [Node (file_info ''a'') [] None, Node (file_info ''b'') [] None,
        Node (file_info ''c'') [] None] None"

definition files_then_unreadable :: node where
  "files_then_unreadable =
     Node (dir_info ''.'')
       [Node (file_info ''a'') [] None, Node (file_info ''b'') [] None,
        Node (dir_info ''z'') [] (Some (OSError ''open z: permission denied''))] None"

definition max_world :: "64 word \<Rightarrow> world" where
  "max_world maxfiles =
     \<lparr>ignorere = default_ignore, careGitignore = False,
      maxcount = main_maxcount maxfiles, NewGitIgnore = no_rule_files\<rparr>"

text \<open>
  What a traversal has to achieve when \<open>M\<close> are the matching files below it, the
  maximum is \<open>k\<close> and the counter does not wrap: the counter advances by the number
  of matching files, the first of them that fit under the maximum are sent, an error
  is returned when one did not fit or when \<open>ferr\<close> already held one, and, when every
  directory lists (\<open>ok\<close>), that error is \<open>maxError\<close> or the \<open>ferr\<close> carried in.
\<close>

definition bounded_result ::
  "nat \<Rightarrow> string list \<Rightarrow> error option \<Rightarrow> bool \<Rightarrow> walk_state \<Rightarrow> error option \<times> walk_state \<Rightarrow> bool"
where
  "bounded_result k M ferr ok st r =
     (unat (st_n (snd r)) = unat (st_n st) + length M \<and>
      st_q (snd r) = st_q st @ take (k - unat (st_n st)) M \<and>
      (k - unat (st_n st) < length M \<longrightarrow> fst r \<noteq> None) \<and>
      (ferr \<noteq> None \<longrightarrow> fst r \<noteq> None) \<and>
      (ok \<longrightarrow> fst r = (if k - unat (st_n st) < length M then Some maxError else ferr)))"

subsection \<open>The loop of \<open>walk\<close> with goroutines\<close>










section \<open>Properties\<close>

subsection \<open>\<open>ignoreMatchers.Match\<close>\<close>

lemma Match_no_nil: "None \<notin> set im \<Longrightarrow> Match im path isDir = spec_matches im path isDir"
  by (induction im) (auto simp: spec_matches_def split: option.splits)

lemma Match_takeWhile:
  "Match im path isDir = spec_matches (takeWhile (\<lambda>ig. ig \<noteq> None) im) path isDir"
  by (induction im) (auto simp: spec_matches_def split: option.splits)

lemma spec_matches_set:
  "set im = set im' \<Longrightarrow> spec_matches im path isDir = spec_matches im' path isDir"
  by (simp add: spec_matches_def list_ex_iff)

text \<open>
  Claim C7. \<open>Match\<close> scans the matchers in order and stops with false at the first nil
  entry. So for a rule set without a nil entry it is true exactly when some contained
  matcher reports a match, and then neither the order nor the multiplicity of the
  matchers changes the result; the empty set matches nothing. In general the result
  is the disjunction over the matchers before the first nil entry.
\<close>

theorem Match_is_disjunction_up_to_nil:
  "(None \<notin> set im \<longrightarrow> Match im path isDir = spec_matches im path isDir) \<and>
   (None \<notin> set im \<longrightarrow> set im' = set im \<longrightarrow> Match im' path isDir = Match im path isDir) \<and>
   Match [] path isDir = False \<and>
   Match im path isDir = spec_matches (takeWhile (\<lambda>ig. ig \<noteq> None) im) path isDir"
proof (intro conjI impI)
  show "Match im path isDir = spec_matches (takeWhile (\<lambda>ig. ig \<noteq> None) im) path isDir"
    by (rule Match_takeWhile)
next
  assume "None \<notin> set im"
  then show "Match im path isDir = spec_matches im path isDir"
    by (rule Match_no_nil)
next
  assume nn: "None \<notin> set im" and eq: "set im' = set im"
  from nn eq have "None \<notin> set im'" by simp
  then have "Match im' path isDir = spec_matches im' path isDir"
    by (rule Match_no_nil)
  also have "\<dots> = spec_matches im path isDir"
    using eq by (rule spec_matches_set)
  also have "\<dots> = Match im path isDir"
    using nn by (simp add: Match_no_nil)
  finally show "Match im' path isDir = Match im path isDir" .
qed simp

text \<open>
  The theorem at a rule set of two matchers and its reversal, for a path the first
  matcher accepts.
\<close>

theorem Match_is_disjunction_up_to_nil_witness:
  "None \<notin> set [Some star_log, Some (\<lambda>p d. d)] \<and>
   set [Some (\<lambda>p d. d), Some star_log] = set [Some star_log, Some (\<lambda>p d. d)] \<and>
   Match [Some star_log, Some (\<lambda>p d. d)] ''sub/x.log'' False
     = spec_matches [Some star_log, Some (\<lambda>p d. d)] ''sub/x.log'' False \<and>
   Match [Some (\<lambda>p d. d), Some star_log] ''sub/x.log'' False
     = Match [Some star_log, Some (\<lambda>p d. d)] ''sub/x.log'' False \<and>
   Match [Some star_log, Some (\<lambda>p d. d)] ''sub/x.log'' False"
  using Match_is_disjunction_up_to_nil
    [of "[Some star_log, Some (\<lambda>p d. d)]" "''sub/x.log''" False "[Some (\<lambda>p d. d), Some star_log]"]
  by (auto simp: star_log_def)

text \<open>
  Claim C7 as stated fails on a rule set with a nil entry: a matcher that accepts every
  path is contained, yet \<open>Match\<close> is false when the nil entry comes first and true when
  it comes last.
\<close>

theorem Match_nil_entry_counterexample:
  "spec_matches [None, Some always_match] ''x.log'' False \<and>
   \<not> Match [None, Some always_match] ''x.log'' False \<and>
   Match [Some always_match, None] ''x.log'' False"
  by (simp add: spec_matches_def always_match_def)

subsection \<open>The closure and \<open>walk\<close> on one entry\<close>

lemma info_simps:
  "IsDir (dir_info n)" "\<not> isSymlink (dir_info n)"
  "\<not> IsDir (file_info n)" "\<not> isSymlink (file_info n)"
  "\<not> IsDir (symlink_info n)" "isSymlink (symlink_info n)"
  "Name (dir_info n) = n" "Name (file_info n) = n" "Name (symlink_info n) = n"
  by (simp_all add: dir_info_def file_info_def symlink_info_def IsDir_def isSymlink_def
      ModeDir_def ModeSymlink_def)

lemma walk_static_ignored_bounded:
  "ignorere W (Name info) \<Longrightarrow>
   walk (walkFn_bounded W) path (Node info files rerr) S st = (None, record_event (Visit path) st)"
  by (simp add: walkFn_bounded_def Let_def)

lemma walk_static_ignored_unbounded:
  "ignorere W (Name info) \<Longrightarrow>
   walk (walkFn_unbounded W) path (Node info files rerr) S st = (None, record_event (Visit path) st)"
  by (simp add: walkFn_unbounded_def Let_def)

lemma walk_symlink_state:
  "isSymlink info \<Longrightarrow>
   snd (walk walkFn path (Node info files rerr) S st)
     = snd (walkFn path info S (record_event (Visit path) st))"
  by (auto split: prod.splits option.splits)

lemma walkFn_bounded_nondir_name:
  "\<not> IsDir fi \<Longrightarrow> \<not> IsDir fi' \<Longrightarrow> Name fi' = Name fi \<Longrightarrow>
   walkFn_bounded W path fi' S st = walkFn_bounded W path fi S st"
  by (simp add: walkFn_bounded_def)

lemma walkFn_unbounded_nondir_name:
  "\<not> IsDir fi \<Longrightarrow> \<not> IsDir fi' \<Longrightarrow> Name fi' = Name fi \<Longrightarrow>
   walkFn_unbounded W path fi' S st = walkFn_unbounded W path fi S st"
  by (simp add: walkFn_unbounded_def)

lemma walk_nondir:
  "\<not> IsDir info \<Longrightarrow>
   walk walkFn path (Node info files rerr) S st =
     (case walkFn path info S (record_event (Visit path) st) of
        ((ignores, walkError), st1) \<Rightarrow> (walkError, st1))"
  by (auto split: prod.splits option.splits)

lemma walkFn_bounded_emit:
  "\<not> IsDir fi \<Longrightarrow> \<not> ignorere W (Name fi) \<Longrightarrow> \<not> (careGitignore W \<and> Match S path False) \<Longrightarrow>
   walkFn_bounded W path fi S st =
     (if maxcount W <s st_n st + 1
      then ((S, Some maxError), st\<lparr>st_n := st_n st + 1\<rparr>)
      else ((S, None), st\<lparr>st_n := st_n st + 1, st_q := st_q st @ [ToSlash path]\<rparr>))"
  by (auto simp add: walkFn_bounded_def Let_def)

lemma walk_bounded_no_rule_file:
  "careGitignore W \<Longrightarrow> IsDir fi \<Longrightarrow> \<not> isSymlink fi \<Longrightarrow>
   NewGitIgnore W (Join path gitignoreFile) = Inl err \<Longrightarrow>
   walk (walkFn_bounded W) path (Node fi files None) S st =
     (if ignorere W (Name fi) \<or> Match S path True then (None, record_event (Visit path) st)
      else walk_files (walkFn_bounded W) path files S None
             (record_event (ReadDir path) (record_event (Visit path) st)))"
  by (simp add: walkFn_bounded_def Let_def)

lemma walk_unbounded_no_rule_file:
  "careGitignore W \<Longrightarrow> IsDir fi \<Longrightarrow> \<not> isSymlink fi \<Longrightarrow>
   NewGitIgnore W (Join path gitignoreFile) = Inl err \<Longrightarrow>
   walk (walkFn_unbounded W) path (Node fi files None) S st =
     (if ignorere W (Name fi) \<or> Match S path True then (None, record_event (Visit path) st)
      else walk_files (walkFn_unbounded W) path files S None
             (record_event (ReadDir path) (record_event (Visit path) st)))"
  by (simp add: walkFn_unbounded_def Let_def)

lemma walkFn_bounded_log: "st_log (snd (walkFn_bounded W path fi S st)) = st_log st"
  by (simp add: walkFn_bounded_def Let_def)

lemma walkFn_unbounded_log: "st_log (snd (walkFn_unbounded W path fi S st)) = st_log st"
  by (simp add: walkFn_unbounded_def Let_def)

lemma maxcount_default_value: "maxcount_default = 0x7FFFFFFFFFFFFFFF"
  by (simp add: maxcount_default_def mask_eq_exp_minus_1)

lemma never_above_maxcount_default: "\<not> maxcount_default <s n"
proof -
  have "sint n < 2 ^ 63"
    using sint_lt [of n] by simp
  then show ?thesis
    by (simp add: maxcount_default_value word_sless_alt)
qed

lemma main_maxcount_unbounded: "main_maxcount (- 1) = maxcount_default"
  by (simp add: main_maxcount_def word_sless_alt)

lemma default_world_simps:
  "ignorere default_world = default_ignore" "careGitignore default_world = False"
  "maxcount default_world = maxcount_default" "NewGitIgnore default_world = no_rule_files"
  by (simp_all add: default_world_def main_maxcount_unbounded)

lemma gitignore_world_simps:
  "ignorere gitignore_world = default_ignore" "careGitignore gitignore_world = True"
  "maxcount gitignore_world = maxcount_default" "NewGitIgnore gitignore_world = sub_rule_file"
  by (simp_all add: gitignore_world_def main_maxcount_unbounded)

text \<open>
  Claim C5. An entry whose bare name matches the static ignore pattern is handed to
  the closure and nothing else happens: \<open>walk\<close> returns nil (for a directory the
  \<open>SkipDir\<close> of the closure is turned into success), the counter and the channel are
  unchanged, the entry is not listed and no entry below it is visited, whatever lies
  below it. Both revisions.
\<close>

theorem static_ignore_prunes_without_error:
  assumes "ignorere W (Name info)"
  shows "walk (walkFn_bounded W) path (Node info files rerr) S st
           = (None, record_event (Visit path) st) \<and>
         walk (walkFn_unbounded W) path (Node info files rerr) S st
           = (None, record_event (Visit path) st)"
  using assms by (intro conjI walk_static_ignored_bounded walk_static_ignored_unbounded)

text \<open>
  The theorem at a directory \<open>.git\<close> that holds a file \<open>config\<close>, which the pattern
  alone would not exclude.
\<close>

theorem static_ignore_prunes_without_error_witness:
  "ignorere default_world (Name (dir_info ''.git'')) \<and>
   \<not> ignorere default_world ''config'' \<and>
   walk (walkFn_bounded default_world) ''.git''
       (Node (dir_info ''.git'') [Node (file_info ''config'') [] None] None) [] start_state
     = (None, \<lparr>st_n = 0, st_q = [], st_log = [Visit ''.git'']\<rparr>) \<and>
   walk (walkFn_unbounded default_world) ''.git''
       (Node (dir_info ''.git'') [Node (file_info ''config'') [] None] None) [] start_state
     = (None, \<lparr>st_n = 0, st_q = [], st_log = [Visit ''.git'']\<rparr>)"
  using static_ignore_prunes_without_error
    [of default_world "dir_info ''.git''" "''.git''" "[Node (file_info ''config'') [] None]"
        None "[]" start_state]
  by (simp add: default_world_simps info_simps default_ignore_def record_event_def
      start_state_def)

text \<open>
  Claim C6. For an entry with the symlink bit, \<open>walk\<close> ends where the closure ends:
  the state after \<open>walk\<close> is the state after the closure, for any closure, so the
  entry is never listed and nothing below it is visited. With either closure of the
  program the log gains the visit of the link alone, and a link whose name matches the
  static pattern is excluded like any other entry.
\<close>

theorem symlink_never_listed:
  assumes "isSymlink info"
  shows "snd (walk walkFn path (Node info files rerr) S st)
           = snd (walkFn path info S (record_event (Visit path) st)) \<and>
         st_log (snd (walk (walkFn_bounded W) path (Node info files rerr) S st))
           = st_log st @ [Visit path] \<and>
         st_log (snd (walk (walkFn_unbounded W) path (Node info files rerr) S st))
           = st_log st @ [Visit path] \<and>
         (ignorere W (Name info) \<longrightarrow>
            walk (walkFn_bounded W) path (Node info files rerr) S st
              = (None, record_event (Visit path) st) \<and>
            walk (walkFn_unbounded W) path (Node info files rerr) S st
              = (None, record_event (Visit path) st))"
proof -
  have a: "snd (walk cl path (Node info files rerr) S st)
             = snd (cl path info S (record_event (Visit path) st))" for cl
    using assms by (rule walk_symlink_state)
  have b: "st_log (snd (walk (walkFn_bounded W) path (Node info files rerr) S st))
             = st_log st @ [Visit path]"
    by (simp only: a walkFn_bounded_log) (simp add: record_event_def)
  have c: "st_log (snd (walk (walkFn_unbounded W) path (Node info files rerr) S st))
             = st_log st @ [Visit path]"
    by (simp only: a walkFn_unbounded_log) (simp add: record_event_def)
  have d: "ignorere W (Name info) \<longrightarrow>
            walk (walkFn_bounded W) path (Node info files rerr) S st
              = (None, record_event (Visit path) st) \<and>
            walk (walkFn_unbounded W) path (Node info files rerr) S st
              = (None, record_event (Visit path) st)"
    by (intro impI conjI walk_static_ignored_bounded walk_static_ignored_unbounded)
  from a b c d show ?thesis by blast
qed

text \<open>
  The theorem at a link \<open>.svn\<close> to a directory that holds a file: the name matches the
  default pattern, the link is excluded and its target is not read.
\<close>

theorem symlink_never_listed_witness:
  "isSymlink (symlink_info ''.svn'') \<and>
   ignorere default_world (Name (symlink_info ''.svn'')) \<and>
   walk (walkFn_bounded default_world) ''.svn''
       (Node (symlink_info ''.svn'') [Node (file_info ''entries'') [] None] None) [] start_state
     = (None, \<lparr>st_n = 0, st_q = [], st_log = [Visit ''.svn'']\<rparr>) \<and>
   st_log (snd (walk (walkFn_unbounded default_world) ''.svn''
       (Node (symlink_info ''.svn'') [Node (file_info ''entries'') [] None] None) [] start_state))
     = [Visit ''.svn'']"
  using symlink_never_listed
    [of "symlink_info ''.svn''" "walkFn_bounded default_world" "''.svn''"
        "[Node (file_info ''entries'') [] None]" None "[]" start_state default_world]
  by (simp add: default_world_simps info_simps default_ignore_def record_event_def
      start_state_def)
text \<open>
  Claim C8. When \<open>NewGitIgnore\<close> fails for the rule file of a real directory (the file
  is missing or cannot be read), the matchers the closure returns, which \<open>walk\<close> passes
  to the children, are the inherited ones; the directory is then tested against the
  inherited matchers and, unless excluded, its children are walked with them. Both
  revisions.
\<close>

theorem missing_rule_file_keeps_context:
  assumes "careGitignore W" and "IsDir fi" and "\<not> isSymlink fi"
    and "NewGitIgnore W (Join path gitignoreFile) = Inl err"
  shows "fst (fst (walkFn_bounded W path fi S st)) = S \<and>
         fst (fst (walkFn_unbounded W path fi S st)) = S \<and>
         walk (walkFn_bounded W) path (Node fi files None) S st =
           (if ignorere W (Name fi) \<or> Match S path True
            then (None, record_event (Visit path) st)
            else walk_files (walkFn_bounded W) path files S None
                   (record_event (ReadDir path) (record_event (Visit path) st))) \<and>
         walk (walkFn_unbounded W) path (Node fi files None) S st =
           (if ignorere W (Name fi) \<or> Match S path True
            then (None, record_event (Visit path) st)
            else walk_files (walkFn_unbounded W) path files S None
                   (record_event (ReadDir path) (record_event (Visit path) st)))"
proof (intro conjI)
  show "fst (fst (walkFn_bounded W path fi S st)) = S"
    using assms by (simp add: walkFn_bounded_def Let_def)
  show "fst (fst (walkFn_unbounded W path fi S st)) = S"
    using assms by (simp add: walkFn_unbounded_def Let_def)
qed (rule walk_bounded_no_rule_file walk_unbounded_no_rule_file; fact assms)+

text \<open>
  The theorem at a directory \<open>other\<close> without a rule file, holding \<open>x.log\<close>, walked
  with the matcher of \<open>*.log\<close> inherited: the file is excluded by the inherited
  matcher.
\<close>

theorem missing_rule_file_keeps_context_witness:
  "careGitignore gitignore_world \<and> IsDir (dir_info ''other'') \<and>
   \<not> isSymlink (dir_info ''other'') \<and>
   NewGitIgnore gitignore_world (Join ''other'' gitignoreFile)
     = Inl (OSError ''no such file or directory'') \<and>
   fst (fst (walkFn_bounded gitignore_world ''other'' (dir_info ''other'')
               [Some star_log] start_state)) = [Some star_log] \<and>
   fst (fst (walkFn_unbounded gitignore_world ''other'' (dir_info ''other'')
               [Some star_log] start_state)) = [Some star_log] \<and>
   walk (walkFn_bounded gitignore_world) ''other''
       (Node (dir_info ''other'') [Node (file_info ''x.log'') [] None] None)
       [Some star_log] start_state
     = (None, \<lparr>st_n = 0, st_q = [],
               st_log = [Visit ''other'', ReadDir ''other'', Visit ''other/x.log'']\<rparr>)"
  using missing_rule_file_keeps_context
    [of gitignore_world "dir_info ''other''" "''other''"
        "OSError ''no such file or directory''" "[Some star_log]" start_state
        "[Node (file_info ''x.log'') [] None]"]
  by (simp add: gitignore_world_simps info_simps default_ignore_def record_event_def
      start_state_def sub_rule_file_def no_rule_files_def gitignoreFile_def Join_def
      Clean_def star_log_def walkFn_bounded_def Let_def)

text \<open>
  Claim C10. \<open>walk\<close> and the closure treat an entry that is not a directory through
  its name alone: a symbolic link (for which \<open>Lstat\<close> never reports the directory
  bit, whatever its target) gives the result of a regular file of the same name. If
  it is not excluded the counter is incremented and, unless the maximum is exceeded,
  its path is sent; so the channel can carry paths that are not regular files.
\<close>

theorem symlink_emitted_like_regular_file:
  assumes "isSymlink fi" and "\<not> IsDir fi" and "\<not> IsDir fi'" and "Name fi' = Name fi"
  shows "walk (walkFn_bounded W) path (Node fi files rerr) S st
           = walk (walkFn_bounded W) path (Node fi' files' rerr') S st \<and>
         walk (walkFn_unbounded W) path (Node fi files rerr) S st
           = walk (walkFn_unbounded W) path (Node fi' files' rerr') S st \<and>
         (\<not> ignorere W (Name fi) \<longrightarrow> \<not> (careGitignore W \<and> Match S path False) \<longrightarrow>
            walk (walkFn_bounded W) path (Node fi files rerr) S st =
              (if maxcount W <s st_n st + 1
               then (Some maxError, (record_event (Visit path) st)\<lparr>st_n := st_n st + 1\<rparr>)
               else (None, (record_event (Visit path) st)
                      \<lparr>st_n := st_n st + 1, st_q := st_q st @ [ToSlash path]\<rparr>)))"
proof (intro conjI impI)
  have b: "walkFn_bounded W path fi' S st0 = walkFn_bounded W path fi S st0" for st0
    using assms(2-4) by (rule walkFn_bounded_nondir_name)
  have u: "walkFn_unbounded W path fi' S st0 = walkFn_unbounded W path fi S st0" for st0
    using assms(2-4) by (rule walkFn_unbounded_nondir_name)
  show "walk (walkFn_bounded W) path (Node fi files rerr) S st
          = walk (walkFn_bounded W) path (Node fi' files' rerr') S st"
    using assms(2,3) by (simp add: walk_nondir b del: walk.simps)
  show "walk (walkFn_unbounded W) path (Node fi files rerr) S st
          = walk (walkFn_unbounded W) path (Node fi' files' rerr') S st"
    using assms(2,3) by (simp add: walk_nondir u del: walk.simps)
next
  assume "\<not> ignorere W (Name fi)" and "\<not> (careGitignore W \<and> Match S path False)"
  with assms(2)
  have "walkFn_bounded W path fi S (record_event (Visit path) st) =
     (if maxcount W <s st_n (record_event (Visit path) st) + 1
      then ((S, Some maxError),
            (record_event (Visit path) st)\<lparr>st_n := st_n (record_event (Visit path) st) + 1\<rparr>)
      else ((S, None), (record_event (Visit path) st)
             \<lparr>st_n := st_n (record_event (Visit path) st) + 1,
              st_q := st_q (record_event (Visit path) st) @ [ToSlash path]\<rparr>))"
    by (rule walkFn_bounded_emit)
  with assms(2) show "walk (walkFn_bounded W) path (Node fi files rerr) S st =
      (if maxcount W <s st_n st + 1
       then (Some maxError, (record_event (Visit path) st)\<lparr>st_n := st_n st + 1\<rparr>)
       else (None, (record_event (Visit path) st)
              \<lparr>st_n := st_n st + 1, st_q := st_q st @ [ToSlash path]\<rparr>))"
    by (simp add: walk_nondir record_event_def del: walk.simps)
qed

text \<open>
  The theorem at a link \<open>current\<close> whose target is a directory holding a file: the
  link's own path is sent, as for the regular file \<open>current\<close>.
\<close>

theorem symlink_emitted_like_regular_file_witness:
  "isSymlink (symlink_info ''current'') \<and> \<not> IsDir (symlink_info ''current'') \<and>
   \<not> IsDir (file_info ''current'') \<and>
   Name (file_info ''current'') = Name (symlink_info ''current'') \<and>
   \<not> ignorere default_world (Name (symlink_info ''current'')) \<and>
   walk (walkFn_bounded default_world) ''current''
       (Node (symlink_info ''current'') [Node (file_info ''inner'') [] None] None) [] start_state
     = walk (walkFn_bounded default_world) ''current''
         (Node (file_info ''current'') [] None) [] start_state \<and>
   walk (walkFn_bounded default_world) ''current''
       (Node (symlink_info ''current'') [Node (file_info ''inner'') [] None] None) [] start_state
     = (None, \<lparr>st_n = 1, st_q = [''current''], st_log = [Visit ''current'']\<rparr>)"
  using symlink_emitted_like_regular_file
    [of "symlink_info ''current''" "file_info ''current''" default_world "''current''"
        "[Node (file_info ''inner'') [] None]" None "[]" start_state "[]" None]
  by (auto simp add: default_world_simps info_simps default_ignore_def record_event_def
      start_state_def never_above_maxcount_default ToSlash_def simp del: walk.simps)

subsection \<open>The loop over the children\<close>





lemmas run_simps =
  walkFn_bounded_def walkFn_unbounded_def default_world_simps gitignore_world_simps info_simps
  default_ignore_def start_state_def record_event_def never_above_maxcount_default
  Join_def Clean_def ToSlash_def gitignoreFile_def sub_rule_file_def no_rule_files_def
  star_log_def

subsection \<open>The loop of \<open>walk\<close> with goroutines\<close>





















subsection \<open>The exclusion test\<close>

lemma walkFn_bounded_cases:
  "walkFn_bounded W path fi S st =
     (if ignorere W (Name fi) \<or>
         careGitignore W \<and> Match (extend_context W path fi S) path (IsDir fi)
      then ((extend_context W path fi S, if IsDir fi then Some SkipDir else None), st)
      else if IsDir fi then ((extend_context W path fi S, None), st)
      else if maxcount W <s st_n st + 1
        then ((extend_context W path fi S, Some maxError), st\<lparr>st_n := st_n st + 1\<rparr>)
        else ((extend_context W path fi S, None),
              st\<lparr>st_n := st_n st + 1, st_q := st_q st @ [ToSlash path]\<rparr>))"
  by (simp add: walkFn_bounded_def extend_context_def Let_def)

lemma walkFn_bounded_context:
  "fst (fst (walkFn_bounded W path fi S st)) = extend_context W path fi S"
  by (simp add: walkFn_bounded_cases)

lemma counter_changes: "st_n st' = st_n st + 1 \<Longrightarrow> st' \<noteq> st"
  by auto

lemma walkFn_bounded_excluded_iff:
  "excluded_outcome fi st (walkFn_bounded W path fi S st) =
     (ignorere W (Name fi) \<or>
      careGitignore W \<and> Match (fst (fst (walkFn_bounded W path fi S st))) path (IsDir fi))"
proof -
  have a: "st\<lparr>st_n := st_n st + 1\<rparr> \<noteq> st"
    by (rule counter_changes) simp
  have b: "st\<lparr>st_n := st_n st + 1, st_q := st_q st @ [ToSlash path]\<rparr> \<noteq> st"
    by (rule counter_changes) simp
  show ?thesis
    unfolding walkFn_bounded_context
    by (simp add: walkFn_bounded_cases excluded_outcome_def a b)
qed

text \<open>
  Claim C1. With the first revision's closure an entry is excluded (pruned or
  skipped) exactly when the static pattern matches its bare name, or \<open>-g\<close> is set and
  the matchers the closure returns, the inherited ones extended by the entry's own
  rule file, match its path. In the scenario the walk sends \<open>sub/y.txt\<close>, does not
  send \<open>sub/x.log\<close>, and also sends the rule file \<open>sub/.gitignore\<close>, which neither
  the default pattern nor the rule \<open>*.log\<close> excludes.
\<close>

theorem exclusion_test_and_scenario:
  "excluded_outcome fi st (walkFn_bounded W path fi S st) =
     (ignorere W (Name fi) \<or>
      careGitignore W \<and> Match (fst (fst (walkFn_bounded W path fi S st))) path (IsDir fi)) \<and>
   walk (walkFn_bounded gitignore_world) ''.'' scenario_root [] start_state
     = (None, \<lparr>st_n = 2, st_q = [''sub/.gitignore'', ''sub/y.txt''],
               st_log = [Visit ''.'', ReadDir ''.'', Visit ''sub'', ReadDir ''sub'',
                         Visit ''sub/.gitignore'', Visit ''sub/x.log'', Visit ''sub/y.txt'']\<rparr>) \<and>
   set (st_q (snd (walk (walkFn_bounded gitignore_world) ''.'' scenario_root [] start_state)))
     = {''sub/.gitignore'', ''sub/y.txt''}"
proof -
  have run: "walk (walkFn_bounded gitignore_world) ''.'' scenario_root [] start_state
     = (None, \<lparr>st_n = 2, st_q = [''sub/.gitignore'', ''sub/y.txt''],
               st_log = [Visit ''.'', ReadDir ''.'', Visit ''sub'', ReadDir ''sub'',
                         Visit ''sub/.gitignore'', Visit ''sub/x.log'', Visit ''sub/y.txt'']\<rparr>)"
    by (simp add: scenario_root_def scenario_sub_def run_simps)
  show ?thesis
    unfolding run by (simp add: walkFn_bounded_excluded_iff)
qed

text \<open>
  Claim C1 as stated fails in its scenario: the set of paths sent from \<open>sub\<close> is not
  \<open>{sub/y.txt}\<close>.
\<close>

theorem scenario_emits_rule_file_counterexample:
  "set (st_q (snd (walk (walkFn_bounded gitignore_world) ''.'' scenario_root [] start_state)))
     \<noteq> {''sub/y.txt''} \<and>
   ''sub/.gitignore''
     \<in> set (st_q (snd (walk (walkFn_bounded gitignore_world) ''.'' scenario_root [] start_state)))"
  by (simp add: scenario_root_def scenario_sub_def run_simps)

text \<open>
  The second revision on the same scenario: its closure leaves \<open>newMatchers\<close> nil for
  every entry that is not a directory, so no rule file ever excludes a file and
  \<open>sub/x.log\<close> is sent as well.
\<close>

lemma scenario_second_revision:
  "st_q (snd (walk (walkFn_unbounded gitignore_world) ''.'' scenario_root [] start_state))
     = [''sub/.gitignore'', ''sub/x.log'', ''sub/y.txt'']"
  by (simp add: scenario_root_def scenario_sub_def run_simps)

text \<open>
  The exclusion test of claim C1 at \<open>sub/x.log\<close> with the matcher of \<open>*.log\<close>
  inherited: excluded, by the matcher and not by the name.
\<close>

theorem exclusion_test_and_scenario_witness:
  "excluded_outcome (file_info ''x.log'') start_state
     (walkFn_bounded gitignore_world ''sub/x.log'' (file_info ''x.log'') [Some star_log] start_state) \<and>
   \<not> ignorere gitignore_world (Name (file_info ''x.log'')) \<and>
   Match (fst (fst (walkFn_bounded gitignore_world ''sub/x.log'' (file_info ''x.log'')
                      [Some star_log] start_state))) ''sub/x.log'' (IsDir (file_info ''x.log''))"
  using exclusion_test_and_scenario
    [of "file_info ''x.log''" start_state gitignore_world "''sub/x.log''" "[Some star_log]"]
  by (simp add: walkFn_bounded_context extend_context_def gitignore_world_simps info_simps
      default_ignore_def star_log_def del: walk.simps)

subsection \<open>Concurrent emits\<close>

lemmas emit_simps = new_emitter_def ToSlash_def all_returned_def word_sless_alt

text \<open>
  One emitter that runs alone from its first step to its return does what the
  closure of the sequential model does to the counter and the channel.
\<close>

lemma emitter_alone:
  "run_schedule maxc [0, 0, 0, 0] (sh, [new_emitter path]) =
     (if maxc <s sh_n sh + 1
      then (sh\<lparr>sh_n := sh_n sh + 1\<rparr>,
            [\<lparr>em_path = path, em_pc = Returned, em_read = sh_n sh, em_ret = Some maxError\<rparr>])
      else (sh\<lparr>sh_n := sh_n sh + 1, sh_q := sh_q sh @ [ToSlash path]\<rparr>,
            [\<lparr>em_path = path, em_pc = Returned, em_read = sh_n sh, em_ret = None\<rparr>]))"
  by (simp add: new_emitter_def)

lemma emitter_alone_is_closure:
  assumes "\<not> IsDir fi" and "\<not> ignorere W (Name fi)"
    and "\<not> (careGitignore W \<and> Match S path False)"
  shows "walkFn_bounded W path fi S st =
     (case run_schedule (maxcount W) [0, 0, 0, 0]
             (\<lparr>sh_n = st_n st, sh_q = st_q st\<rparr>, [new_emitter path]) of
        (sh, es) \<Rightarrow> ((S, em_ret (hd es)), st\<lparr>st_n := sh_n sh, st_q := sh_q sh\<rparr>))"
  unfolding emitter_alone walkFn_bounded_emit [OF assms] by simp

text \<open>
  Claim C9. The increment of the shared counter is a read followed by a write with
  no synchronization. Two emits that overlap can both read the counter before either
  writes it: one increment is lost, both comparisons see the stale count, and with a
  maximum of 1 both paths are sent. An emit that runs without overlap counts its
  increment and compares against the exact count.
\<close>

theorem counter_increment_races:
  "run_schedule 1 [0, 1, 0, 1, 0, 1, 0, 1]
       (\<lparr>sh_n = 0, sh_q = []\<rparr>, [new_emitter ''a'', new_emitter ''b''])
     = (\<lparr>sh_n = 1, sh_q = [''a'', ''b'']\<rparr>,
        [\<lparr>em_path = ''a'', em_pc = Returned, em_read = 0, em_ret = None\<rparr>,
         \<lparr>em_path = ''b'', em_pc = Returned, em_read = 0, em_ret = None\<rparr>]) \<and>
   run_schedule 1 [0, 0, 0, 0, 1, 1, 1, 1]
       (\<lparr>sh_n = 0, sh_q = []\<rparr>, [new_emitter ''a'', new_emitter ''b''])
     = (\<lparr>sh_n = 2, sh_q = [''a'']\<rparr>,
        [\<lparr>em_path = ''a'', em_pc = Returned, em_read = 0, em_ret = None\<rparr>,
         \<lparr>em_path = ''b'', em_pc = Returned, em_read = 1, em_ret = Some maxError\<rparr>]) \<and>
   run_schedule maxc [0, 0, 0, 0] (sh, [new_emitter path]) =
     (if maxc <s sh_n sh + 1
      then (sh\<lparr>sh_n := sh_n sh + 1\<rparr>,
            [\<lparr>em_path = path, em_pc = Returned, em_read = sh_n sh, em_ret = Some maxError\<rparr>])
      else (sh\<lparr>sh_n := sh_n sh + 1, sh_q := sh_q sh @ [ToSlash path]\<rparr>,
            [\<lparr>em_path = path, em_pc = Returned, em_read = sh_n sh, em_ret = None\<rparr>]))"
proof (intro conjI)
  show "run_schedule maxc [0, 0, 0, 0] (sh, [new_emitter path]) =
     (if maxc <s sh_n sh + 1
      then (sh\<lparr>sh_n := sh_n sh + 1\<rparr>,
            [\<lparr>em_path = path, em_pc = Returned, em_read = sh_n sh, em_ret = Some maxError\<rparr>])
      else (sh\<lparr>sh_n := sh_n sh + 1, sh_q := sh_q sh @ [ToSlash path]\<rparr>,
            [\<lparr>em_path = path, em_pc = Returned, em_read = sh_n sh, em_ret = None\<rparr>]))"
    by (rule emitter_alone)
qed (simp_all add: emit_simps)

text \<open>
  Claim C9 as stated fails: were the increments synchronized, two emits that have
  both returned would leave the counter at 2 and, with a maximum of 1, one path on
  the channel. Under the schedule that alternates the two goroutines the counter ends
  at 1 and both paths are on the channel.
\<close>

theorem synchronized_counter_counterexample:
  "all_returned (run_schedule 1 [0, 1, 0, 1, 0, 1, 0, 1]
       (\<lparr>sh_n = 0, sh_q = []\<rparr>, [new_emitter ''a'', new_emitter ''b''])) \<and>
   sh_n (fst (run_schedule 1 [0, 1, 0, 1, 0, 1, 0, 1]
       (\<lparr>sh_n = 0, sh_q = []\<rparr>, [new_emitter ''a'', new_emitter ''b'']))) = 1 \<and>
   length (sh_q (fst (run_schedule 1 [0, 1, 0, 1, 0, 1, 0, 1]
       (\<lparr>sh_n = 0, sh_q = []\<rparr>, [new_emitter ''a'', new_emitter ''b''])))) = 2"
  by (simp add: emit_simps)

subsection \<open>Slices of matchers in memory\<close>

lemmas slice_simps =
  inherited_by_siblings_def after_c_def after_d_def
  inherited_by_siblings_copy_def after_c_copy_def after_d_copy_def
  extend_bounded_def extend_unbounded_def go_append_def go_make_def go_copy_def go_store_def
  slice_elems_def doubling_def nil_slice_def empty_heap_def nested_world_def
  nested_rule_files_def no_rule_files_def info_simps Join_def Clean_def gitignoreFile_def
  Let_def

text \<open>
  Claim C3, first revision. The slice both siblings inherit has three matchers and
  room for four. The closure for \<open>c\<close> appends the matcher of \<open>*.log\<close> in place, and
  \<open>a/b/c/x.log\<close> is excluded by the matchers of \<open>c\<close>'s children. The closure for \<open>d\<close>
  then appends the matcher of \<open>*.tmp\<close> into the same cell: the slice held by \<open>c\<close>'s
  children now ends in \<open>d\<close>'s matcher and no longer excludes \<open>a/b/c/x.log\<close>. The
  cells of the inherited slice itself are unchanged.
\<close>

theorem append_overwrites_sibling_context:
  "sl_len (snd inherited_by_siblings) = 3 \<and> sl_cap (snd inherited_by_siblings) = 4 \<and>
   slice_elems (fst after_c) (snd after_c)
     = [Some (has_suffix ''.bak''), Some (has_suffix ''.bak''), Some (has_suffix ''.bak''),
        Some (has_suffix ''.log'')] \<and>
   Match (slice_elems (fst after_c) (snd after_c)) ''a/b/c/x.log'' False \<and>
   sl_array (snd after_d) = sl_array (snd after_c) \<and>
   slice_elems (fst after_d) (snd after_c)
     = [Some (has_suffix ''.bak''), Some (has_suffix ''.bak''), Some (has_suffix ''.bak''),
        Some (has_suffix ''.tmp'')] \<and>
   \<not> Match (slice_elems (fst after_d) (snd after_c)) ''a/b/c/x.log'' False \<and>
   slice_elems (fst after_d) (snd inherited_by_siblings)
     = slice_elems (fst inherited_by_siblings) (snd inherited_by_siblings)"
  by (simp add: slice_simps has_suffix_def)

text \<open>
  The second revision on the same tree: every extension gets an array of its own,
  and the slice of \<open>c\<close>'s children still ends in \<open>c\<close>'s matcher after the closure has
  run for \<open>d\<close>.
\<close>

lemma copy_keeps_sibling_context:
  "sl_array (snd after_d_copy) \<noteq> sl_array (snd after_c_copy) \<and>
   slice_elems (fst after_d_copy) (snd after_c_copy)
     = [Some (has_suffix ''.bak''), Some (has_suffix ''.bak''), Some (has_suffix ''.bak''),
        Some (has_suffix ''.log'')] \<and>
   Match (slice_elems (fst after_d_copy) (snd after_c_copy)) ''a/b/c/x.log'' False"
  by (simp add: slice_simps has_suffix_def)

text \<open>
  In general: reading the slice the closure returns gives the matchers of the
  sequential model, in both revisions; the second revision writes to no array that
  existed before; and two appends to one slice with spare capacity leave both results
  on the second matcher.
\<close>

lemma take_update_last:
  "k < length xs \<Longrightarrow> take (Suc k) (xs[k := x]) = take k xs @ [x]"
  by (simp add: take_Suc_conv_app_nth)

lemma drop_fresh_cells: "drop k (None # replicate k None) = [None :: IgnoreMatcher]"
proof -
  have "drop k (replicate (Suc k) (None :: IgnoreMatcher)) = replicate (Suc k - k) None"
    by (simp only: drop_replicate)
  then show ?thesis by simp
qed

lemma extend_bounded_elems:
  assumes "valid_slice h s"
  shows "slice_elems (fst (extend_bounded grow W path fi h s)) (snd (extend_bounded grow W path fi h s))
           = extend_context W path fi (slice_elems h s)"
  using assms
  by (auto simp: valid_slice_def extend_bounded_def extend_context_def go_append_def
      slice_elems_def Let_def take_update_last split: sum.splits)

lemma extend_unbounded_elems:
  assumes "valid_slice h s"
  shows "slice_elems (fst (extend_unbounded W path fi h s)) (snd (extend_unbounded W path fi h s))
           = (if careGitignore W \<and> IsDir fi \<and> \<not> isSymlink fi then
                (case NewGitIgnore W (Join path gitignoreFile) of
                   Inr matcher \<Rightarrow> (slice_elems h s @ [None])[length (slice_elems h s) := matcher]
                 | Inl err \<Rightarrow> slice_elems h s)
              else [])"
  using assms
  by (auto simp: valid_slice_def extend_unbounded_def go_make_def go_copy_def go_store_def
      slice_elems_def nil_slice_def Let_def min_def list_update_append drop_fresh_cells
      split: sum.splits)

lemma extend_unbounded_frame:
  assumes "sl_array s' < hp_next h"
  shows "slice_elems (fst (extend_unbounded W path fi h s)) s' = slice_elems h s'"
  using assms
  by (auto simp: extend_unbounded_def go_make_def go_copy_def go_store_def slice_elems_def
      Let_def split: sum.splits)

lemma appends_share_cell:
  assumes "valid_slice h s" and "sl_len s < sl_cap s"
  shows "slice_elems (fst (go_append grow (fst (go_append grow h s x)) s y))
             (snd (go_append grow h s x))
           = slice_elems h s @ [y]"
  using assms
  by (simp add: valid_slice_def go_append_def slice_elems_def take_update_last)

subsection \<open>The counter as a number\<close>

lemma sint_small:
  assumes "unat (a :: 64 word) < 2 ^ 63"
  shows "sint a = int (unat a)"
proof -
  have "int (unat a) < int (2 ^ 63)"
    using assms by (simp only: of_nat_less_iff)
  then have "uint a < 2 ^ 63"
    by (simp only: uint_nat of_nat_power of_nat_numeral)
  moreover have "- (2 ^ 63) \<le> uint a"
    by (rule order_trans [of _ 0]) simp_all
  ultimately have "signed_take_bit 63 (uint a) = uint a"
    by (rule signed_take_bit_int_eq_self [rotated])
  then have "sint a = uint a"
    by (simp add: sint_uint)
  then show ?thesis
    by (simp only: uint_nat)
qed

lemma sless_unat:
  assumes "unat (a :: 64 word) < 2 ^ 63" and "unat (b :: 64 word) < 2 ^ 63"
  shows "(a <s b) = (unat a < unat b)"
  by (simp only: word_sless_alt sint_small [OF assms(1)] sint_small [OF assms(2)] of_nat_less_iff)

lemma unat_incr:
  assumes "unat (c :: 64 word) + 1 < 2 ^ 63"
  shows "unat (c + 1) = unat c + 1"
proof -
  have "unat c + unat (1 :: 64 word) < 2 ^ LENGTH(64)"
    using assms by simp
  then have "unat (c + 1) = unat c + unat (1 :: 64 word)"
    by (simp only: unat_add_lem)
  then show ?thesis by simp
qed

lemma positive_unat_bound:
  assumes "0 <s (k :: 64 word)"
  shows "unat k < 2 ^ 63"
proof (rule ccontr)
  assume "\<not> unat k < 2 ^ 63"
  then have "int (2 ^ 63) \<le> int (unat k)"
    by (simp only: of_nat_le_iff not_less)
  then have "2 ^ 63 \<le> uint k"
    by (simp only: uint_nat of_nat_power of_nat_numeral)
  then have "signed_take_bit 63 (uint k) \<le> uint k - 2 ^ Suc 63"
    by (rule signed_take_bit_int_less_eq)
  moreover have "(2 :: int) ^ Suc 63 = 2 ^ 64"
    by simp
  ultimately have "signed_take_bit 63 (uint k) \<le> uint k - 2 ^ 64"
    by (simp only:)
  moreover have "uint k < 2 ^ 64"
    using uint_bounded [of k] by simp
  ultimately have "signed_take_bit 63 (uint k) < 0"
    by linarith
  then have "sint k < 0"
    by (simp add: sint_uint)
  with assms show False
    by (simp add: word_sless_alt)
qed

lemma maxcount_default_unat: "unat maxcount_default = 2 ^ 63 - 1"
  by (simp add: maxcount_default_value)

lemma main_maxcount_bound: "unat (main_maxcount maxfiles) < 2 ^ 63"
proof (cases "0 <s maxfiles")
  case True
  then show ?thesis
    using positive_unat_bound [OF True] by (simp add: main_maxcount_def)
next
  case False
  then show ?thesis
    by (simp add: main_maxcount_def maxcount_default_unat)
qed

subsection \<open>A walk with a maximum\<close>

lemma bounded_result_event:
  "bounded_result k M ferr ok (record_event e st) r = bounded_result k M ferr ok st r"
  by (simp add: bounded_result_def record_event_def)

lemma walk_bounded_result:
  assumes K: "unat (maxcount W) < 2 ^ 63"
  shows "unat (st_n st) + length (matching W path node S) < 2 ^ 63 \<Longrightarrow>
         bounded_result (unat (maxcount W)) (matching W path node S) None (listable node) st
           (walk (walkFn_bounded W) path node S st)"
    and "unat (st_n st) + length (matching_files W path files S) < 2 ^ 63 \<Longrightarrow>
         bounded_result (unat (maxcount W)) (matching_files W path files S) ferr
           (listable_files files) st (walk_files (walkFn_bounded W) path files S ferr st)"
  using K
proof (induction W path node S and W path files S arbitrary: st and ferr st
    rule: matching_matching_files.induct)
  case (1 W path info files rerr S)
  let ?S = "extend_context W path info S"
  let ?st = "record_event (Visit path) st"
  show ?case
  proof (cases "ignorere W (Name info) \<or> careGitignore W \<and> Match ?S path (IsDir info)")
    case True
    then have "walk (walkFn_bounded W) path (Node info files rerr) S st = (None, ?st)"
      by (auto simp: walkFn_bounded_cases)
    moreover from True have "matching W path (Node info files rerr) S = []"
      by auto
    ultimately show ?thesis
      by (simp add: bounded_result_def record_event_def)
  next
    case excl: False
    show ?thesis
    proof (cases "IsDir info")
      case False
      from excl False have m: "matching W path (Node info files rerr) S = [ToSlash path]"
        by auto
      with "1.prems"(1) have small: "unat (st_n st) + 1 < 2 ^ 63"
        by simp
      then have inc: "unat (st_n st + 1) = unat (st_n st) + 1"
        by (rule unat_incr)
      with small have "unat (st_n st + 1) < 2 ^ 63"
        by simp
      with "1.prems"(2) have cmp: "(maxcount W <s st_n st + 1) = (unat (maxcount W) < unat (st_n st) + 1)"
        by (simp add: sless_unat inc)
      have w: "walk (walkFn_bounded W) path (Node info files rerr) S st =
          (if unat (maxcount W) < unat (st_n st) + 1
           then (Some maxError, ?st\<lparr>st_n := st_n st + 1\<rparr>)
           else (None, ?st\<lparr>st_n := st_n st + 1, st_q := st_q st @ [ToSlash path]\<rparr>))"
        using excl False cmp by (auto simp: walkFn_bounded_cases record_event_def)
      show ?thesis
        unfolding m w using inc by (auto simp: bounded_result_def record_event_def)
    next
      case dir: True
      show ?thesis
      proof (cases "isSymlink info \<or> rerr \<noteq> None")
        case True
        from excl dir True have m: "matching W path (Node info files rerr) S = []"
          by auto
        from excl dir True have "walk (walkFn_bounded W) path (Node info files rerr) S st
            = (if isSymlink info then (None, ?st) else (rerr, record_event (ReadDir path) ?st))"
          by (auto simp: walkFn_bounded_cases)
        with True show ?thesis
          unfolding m by (auto simp: bounded_result_def record_event_def)
      next
        case False
        from excl dir False have m: "matching W path (Node info files rerr) S
            = matching_files W path files ?S"
          by auto
        from excl dir False have w: "walk (walkFn_bounded W) path (Node info files rerr) S st
            = walk_files (walkFn_bounded W) path files ?S None (record_event (ReadDir path) ?st)"
          by (auto simp: walkFn_bounded_cases)
        have "bounded_result (unat (maxcount W)) (matching_files W path files ?S) None
            (listable_files files) (record_event (ReadDir path) ?st)
            (walk_files (walkFn_bounded W) path files ?S None (record_event (ReadDir path) ?st))"
          using "1.IH" [OF excl _ False _ "1.prems"(2)] dir "1.prems"(1) m
          by (simp add: record_event_def)
        then show ?thesis
          unfolding m w using False by (simp add: bounded_result_event)
      qed
    qed
  qed
next
  case (2 W path S)
  show ?case
    by (simp add: bounded_result_def)
next
  case (3 W path f rest S)
  let ?p = "Join path (Name (node_info f))"
  let ?M1 = "matching W ?p f S"
  let ?M2 = "matching_files W path rest S"
  obtain err st1 where w: "walk (walkFn_bounded W) ?p f S st = (err, st1)"
    by (metis prod.exhaust)
  let ?ferr = "case err of None \<Rightarrow> ferr | Some e \<Rightarrow> Some e"
  obtain err2 st2 where w2: "walk_files (walkFn_bounded W) path rest S ?ferr st1 = (err2, st2)"
    by (metis prod.exhaust)
  from "3.prems"(1) have b1: "unat (st_n st) + length ?M1 < 2 ^ 63"
    by simp
  have r1: "bounded_result (unat (maxcount W)) ?M1 None (listable f) st (err, st1)"
    using "3.IH"(1) [OF b1 "3.prems"(2)] w by simp
  then have n1: "unat (st_n st1) = unat (st_n st) + length ?M1"
    by (simp add: bounded_result_def)
  with "3.prems"(1) have b2: "unat (st_n st1) + length ?M2 < 2 ^ 63"
    by simp
  have r2: "bounded_result (unat (maxcount W)) ?M2 ?ferr (listable_files rest) st1 (err2, st2)"
    using "3.IH"(2) [OF b2 "3.prems"(2), where ferr = ?ferr] w2 by simp
  have "bounded_result (unat (maxcount W)) (?M1 @ ?M2) ferr (listable f \<and> listable_files rest)
      st (err2, st2)"
    using r1 r2 unfolding bounded_result_def
    by (cases err) (auto simp: n1)
  then show ?case
    using w w2 by simp
qed

lemma walk_default_sends_all:
  assumes D: "maxcount W = maxcount_default"
  shows "st_q (snd (walk (walkFn_bounded W) path node S st))
           = st_q st @ matching W path node S"
    and "st_q (snd (walk_files (walkFn_bounded W) path files S ferr st))
           = st_q st @ matching_files W path files S"
  using D
proof (induction W path node S and W path files S arbitrary: st and ferr st
    rule: matching_matching_files.induct)
  case (1 W path info files rerr S)
  let ?S = "extend_context W path info S"
  let ?st = "record_event (Visit path) st"
  have never: "\<not> maxcount W <s x" for x
    using "1.prems" by (simp add: never_above_maxcount_default)
  show ?case
  proof (cases "ignorere W (Name info) \<or> careGitignore W \<and> Match ?S path (IsDir info)")
    case True
    then have "walk (walkFn_bounded W) path (Node info files rerr) S st = (None, ?st)"
      by (auto simp: walkFn_bounded_cases)
    moreover from True have "matching W path (Node info files rerr) S = []"
      by auto
    ultimately show ?thesis
      by (simp add: record_event_def)
  next
    case excl: False
    show ?thesis
    proof (cases "IsDir info")
      case False
      from excl False have "matching W path (Node info files rerr) S = [ToSlash path]"
        by auto
      moreover from excl False have "walk (walkFn_bounded W) path (Node info files rerr) S st
          = (None, ?st\<lparr>st_n := st_n st + 1, st_q := st_q st @ [ToSlash path]\<rparr>)"
        by (auto simp: walkFn_bounded_cases never record_event_def)
      ultimately show ?thesis
        by (simp add: record_event_def)
    next
      case dir: True
      show ?thesis
      proof (cases "isSymlink info \<or> rerr \<noteq> None")
        case True
        from excl dir True have "matching W path (Node info files rerr) S = []"
          by auto
        moreover from excl dir True
        have "walk (walkFn_bounded W) path (Node info files rerr) S st
            = (if isSymlink info then (None, ?st) else (rerr, record_event (ReadDir path) ?st))"
          by (auto simp: walkFn_bounded_cases)
        ultimately show ?thesis
          by (simp add: record_event_def)
      next
        case False
        from excl dir False have m: "matching W path (Node info files rerr) S
            = matching_files W path files ?S"
          by auto
        from excl dir False have w: "walk (walkFn_bounded W) path (Node info files rerr) S st
            = walk_files (walkFn_bounded W) path files ?S None (record_event (ReadDir path) ?st)"
          by (auto simp: walkFn_bounded_cases)
        have "st_q (snd (walk_files (walkFn_bounded W) path files ?S None
                  (record_event (ReadDir path) ?st)))
            = st_q (record_event (ReadDir path) ?st) @ matching_files W path files ?S"
          using "1.IH" [OF excl _ False "1.prems"] dir by simp
        then show ?thesis
          unfolding m w by (simp add: record_event_def)
      qed
    qed
  qed
next
  case (2 W path S)
  show ?case by simp
next
  case (3 W path f rest S)
  obtain err st1 where w: "walk (walkFn_bounded W) (Join path (Name (node_info f))) f S st = (err, st1)"
    by (metis prod.exhaust)
  have "st_q st1 = st_q st @ matching W (Join path (Name (node_info f))) f S"
    using "3.IH"(1) [OF "3.prems", of st] w by simp
  moreover have "st_q (snd (walk_files (walkFn_bounded W) path rest S
        (case err of None \<Rightarrow> ferr | Some e \<Rightarrow> Some e) st1))
      = st_q st1 @ matching_files W path rest S"
    by (rule "3.IH"(2) [OF "3.prems"])
  ultimately show ?case
    using w by simp
qed

lemmas max_simps =
  walkFn_bounded_def max_world_def main_maxcount_def three_files_def files_then_unreadable_def
  info_simps default_ignore_def start_state_def record_event_def no_rule_files_def
  extend_context_def Join_def Clean_def ToSlash_def word_sless_alt

text \<open>
  Claim C2. Under the schedule in which the children run one after the other, and
  for a tree with fewer than \<open>2^63\<close> matching files (so that the \<open>int64\<close> counter does
  not wrap): with \<open>-M k\<close>, \<open>k \<ge> 1\<close>, and more than \<open>k\<close> matching files, the walk
  returns an error and exactly the first \<open>k\<close> matching files are sent; the error is
  \<open>maxError\<close> when every directory of the tree can be listed. With \<open>-M\<close> unset or not
  positive all matching files are sent, whatever their number. The emit whose counter
  value exceeds the maximum returns \<open>maxError\<close> and sends nothing.
\<close>

theorem maximum_bounds_emitted_files:
  assumes "maxcount W = main_maxcount maxfiles"
  shows
    "(0 <s maxfiles \<longrightarrow> unat maxfiles < length (matching W base root ign) \<longrightarrow>
      length (matching W base root ign) < 2 ^ 63 \<longrightarrow>
        fst (walk (walkFn_bounded W) base root ign start_state) \<noteq> None \<and>
        st_q (snd (walk (walkFn_bounded W) base root ign start_state))
          = take (unat maxfiles) (matching W base root ign) \<and>
        length (st_q (snd (walk (walkFn_bounded W) base root ign start_state))) = unat maxfiles \<and>
        (listable root \<longrightarrow>
           fst (walk (walkFn_bounded W) base root ign start_state) = Some maxError)) \<and>
     (\<not> 0 <s maxfiles \<longrightarrow>
        st_q (snd (walk (walkFn_bounded W) base root ign start_state))
          = matching W base root ign) \<and>
     (\<not> IsDir fi \<longrightarrow> \<not> ignorere W (Name fi) \<longrightarrow> \<not> (careGitignore W \<and> Match S path False) \<longrightarrow>
      maxcount W <s st_n st + 1 \<longrightarrow>
        walkFn_bounded W path fi S st = ((S, Some maxError), st\<lparr>st_n := st_n st + 1\<rparr>))"
proof (intro conjI impI)
  assume "\<not> 0 <s maxfiles"
  with assms have "maxcount W = maxcount_default"
    by (simp add: main_maxcount_def)
  then show "st_q (snd (walk (walkFn_bounded W) base root ign start_state))
      = matching W base root ign"
    by (simp add: walk_default_sends_all(1) start_state_def)
next
  assume "\<not> IsDir fi" "\<not> ignorere W (Name fi)" "\<not> (careGitignore W \<and> Match S path False)"
    and "maxcount W <s st_n st + 1"
  then show "walkFn_bounded W path fi S st = ((S, Some maxError), st\<lparr>st_n := st_n st + 1\<rparr>)"
    by (simp add: walkFn_bounded_emit)
next
  assume pos: "0 <s maxfiles"
    and more: "unat maxfiles < length (matching W base root ign)"
    and small: "length (matching W base root ign) < 2 ^ 63"
  let ?r = "walk (walkFn_bounded W) base root ign start_state"
  let ?M = "matching W base root ign"
  from assms pos have k: "maxcount W = maxfiles"
    by (simp add: main_maxcount_def)
  have K: "unat (maxcount W) < 2 ^ 63"
    unfolding assms by (rule main_maxcount_bound)
  have "unat (st_n start_state) + length ?M < 2 ^ 63"
    using small by (simp add: start_state_def)
  then have "bounded_result (unat (maxcount W)) ?M None (listable root) start_state ?r"
    using K by (rule walk_bounded_result(1) [rotated])
  then have res: "bounded_result (unat maxfiles) ?M None (listable root) start_state ?r"
    by (simp only: k)
  from res more show "fst ?r \<noteq> None"
    by (simp add: bounded_result_def start_state_def)
  from res show q: "st_q (snd ?r) = take (unat maxfiles) ?M"
    by (simp add: bounded_result_def start_state_def)
  from more show "length (st_q (snd ?r)) = unat maxfiles"
    unfolding q by simp
  {
    assume "listable root"
    with res more show "fst ?r = Some maxError"
      by (simp add: bounded_result_def start_state_def)
  }
qed

text \<open>
  The theorem with \<open>-M 2\<close> at a directory of three files: the first two are sent and
  the walk returns \<open>maxError\<close>; the emit for the third finds the counter at 3.
\<close>

theorem maximum_bounds_emitted_files_witness:
  "maxcount (max_world 2) = main_maxcount 2 \<and> 0 <s (2 :: 64 word) \<and>
   unat (2 :: 64 word) < length (matching (max_world 2) ''.'' three_files []) \<and>
   length (matching (max_world 2) ''.'' three_files []) < 2 ^ 63 \<and>
   listable three_files \<and>
   matching (max_world 2) ''.'' three_files [] = [''a'', ''b'', ''c''] \<and>
   fst (walk (walkFn_bounded (max_world 2)) ''.'' three_files [] start_state) = Some maxError \<and>
   st_q (snd (walk (walkFn_bounded (max_world 2)) ''.'' three_files [] start_state))
     = [''a'', ''b''] \<and>
   \<not> IsDir (file_info ''c'') \<and> \<not> ignorere (max_world 2) (Name (file_info ''c'')) \<and>
   \<not> (careGitignore (max_world 2) \<and> Match [] ''c'' False) \<and>
   maxcount (max_world 2) <s st_n \<lparr>st_n = 2, st_q = [''a'', ''b''], st_log = []\<rparr> + 1 \<and>
   walkFn_bounded (max_world 2) ''c'' (file_info ''c'') []
       \<lparr>st_n = 2, st_q = [''a'', ''b''], st_log = []\<rparr>
     = (([], Some maxError), \<lparr>st_n = 3, st_q = [''a'', ''b''], st_log = []\<rparr>)"
  using maximum_bounds_emitted_files
    [of "max_world 2" 2 "''.''" three_files "[]" "file_info ''c''" "[]" "''c''"
        "\<lparr>st_n = 2, st_q = [''a'', ''b''], st_log = []\<rparr>"]
  by (simp add: max_simps del: walk.simps)

text \<open>
  Claim C2 as stated fails when a directory that cannot be listed is walked after
  the overflow: with \<open>-M 1\<close> and two matching files the walk sends one path, and the
  error it returns is the listing failure of \<open>z\<close>, not \<open>maxError\<close>.
\<close>

theorem listing_failure_replaces_overflow_counterexample:
  "0 <s (1 :: 64 word) \<and>
   maxcount (max_world 1) = 1 \<and>
   matching (max_world 1) ''.'' files_then_unreadable [] = [''a'', ''b''] \<and>
   st_q (snd (walk (walkFn_bounded (max_world 1)) ''.'' files_then_unreadable [] start_state))
     = [''a''] \<and>
   fst (walk (walkFn_bounded (max_world 1)) ''.'' files_then_unreadable [] start_state)
     = Some (OSError ''open z: permission denied'') \<and>
   fst (walk (walkFn_bounded (max_world 1)) ''.'' files_then_unreadable [] start_state)
     \<noteq> Some maxError"
  by (simp add: max_simps)

end
